theory Spec2Isabelle
  imports Complex_Main
begin

section \<open>The attention tracker hook (frontend/src/hooks/useAttentionTracker.ts)\<close>

text \<open>
  Times are milliseconds as \<open>Date.now()\<close> returns them (integers); detection scores are
  modelled as exact reals. Browser resources (interval handles, detectors, media tracks,
  video and canvas elements) are identified by natural numbers. A call on a browser
  object that the source makes on a non-null ref (\<open>clearInterval\<close>, \<open>close\<close>, \<open>stop\<close>) is
  taken to return normally; the calls the source guards with \<open>try\<close> have their failure
  as a case of the model.
\<close>

definition DISTRACTION_THRESHOLD_MS :: int where
  "DISTRACTION_THRESHOLD_MS = 10000"

definition DETECTION_INTERVAL_MS :: int where
  "DETECTION_INTERVAL_MS = 500"

definition TREND_WINDOW_MS :: int where
  "TREND_WINDOW_MS = 3600000"

definition BREAK_SUGGESTION_THRESHOLD :: nat where
  "BREAK_SUGGESTION_THRESHOLD = 3"

record AttentionState =
  isTracking :: bool
  isFaceDetected :: bool
  distractionEvents :: nat
  currentDistractionDuration :: int
  shouldSuggestBreak :: bool
  totalFocusedTime :: int
  totalDistractedTime :: int
  detectionScore :: real

text \<open>A media stream is the list of its tracks.\<close>

type_synonym MediaStream = "nat list"

text \<open>
  The hook instance: the \<open>useState\<close> value and the \<open>useRef\<close> cells that the callbacks
  read and write. \<open>lastDetectionRef\<close> is initialised and never read or written again.
\<close>

record Hook =
  state :: AttentionState
  videoRef :: "nat option"
  canvasRef :: "nat option"
  detectorRef :: "nat option"
  streamRef :: "MediaStream option"
  intervalRef :: "nat option"
  distractionStartRef :: "int option"
  lastDetectionRef :: int
  eventTimestampsRef :: "int list"
  eventTriggeredRef :: bool

definition initialHook :: "int \<Rightarrow> Hook" where
  "initialHook mountTime =
     \<lparr> state = \<lparr> isTracking = False, isFaceDetected = True, distractionEvents = 0,
                 currentDistractionDuration = 0, shouldSuggestBreak = False,
                 totalFocusedTime = 0, totalDistractedTime = 0, detectionScore = 0 \<rparr>,
       videoRef = None, canvasRef = None, detectorRef = None, streamRef = None,
       intervalRef = None, distractionStartRef = None, lastDetectionRef = mountTime,
       eventTimestampsRef = [], eventTriggeredRef = False \<rparr>"

text \<open>Calls the hook makes on the browser, in the order it makes them.\<close>

datatype effect =
    GetUserMedia
  | SetInterval nat
  | ClearInterval nat
  | DetectorClose nat
  | TrackStop nat
  | ClearSrcObject nat
  | AlertNoWebcam

text \<open>
  What the environment answers to one call of \<open>startTracking\<close>: \<open>getUserMedia\<close> rejects;
  or the stream, video and canvas are made and \<open>initializeDetector\<close> returns false; or
  everything succeeds and \<open>setInterval\<close> returns a handle.
\<close>

datatype startOutcome =
    UserMediaRejected
  | DetectorInitFailed MediaStream nat nat
  | Started MediaStream nat nat nat nat

fun startTracking :: "startOutcome \<Rightarrow> Hook \<Rightarrow> Hook \<times> effect list" where
  "startTracking UserMediaRejected h = (h, [GetUserMedia, AlertNoWebcam])"
| "startTracking (DetectorInitFailed stream video canvas) h =
     (h\<lparr> streamRef := Some stream, videoRef := Some video, canvasRef := Some canvas \<rparr>,
      [GetUserMedia, AlertNoWebcam])"
| "startTracking (Started stream video canvas detector interval) h =
     (h\<lparr> streamRef := Some stream, videoRef := Some video, canvasRef := Some canvas,
         detectorRef := Some detector,
         state := (state h)\<lparr> isTracking := True \<rparr>,
         intervalRef := Some interval \<rparr>,
      [GetUserMedia, SetInterval interval])"

definition stopTracking :: "Hook \<Rightarrow> Hook \<times> effect list" where
  "stopTracking h =
     (h\<lparr> intervalRef := None, detectorRef := None, streamRef := None, videoRef := None,
         canvasRef := None, distractionStartRef := None,
         state := (state h)\<lparr> isTracking := False \<rparr> \<rparr>,
      (case intervalRef h of None \<Rightarrow> [] | Some i \<Rightarrow> [ClearInterval i]) @
      (case detectorRef h of None \<Rightarrow> [] | Some d \<Rightarrow> [DetectorClose d]) @
      (case streamRef h of None \<Rightarrow> [] | Some s \<Rightarrow> map TrackStop s) @
      (case videoRef h of None \<Rightarrow> [] | Some v \<Rightarrow> [ClearSrcObject v]))"

definition dismissBreakSuggestion :: "Hook \<Rightarrow> Hook" where
  "dismissBreakSuggestion h =
     h\<lparr> state := (state h)\<lparr> shouldSuggestBreak := False \<rparr>, eventTimestampsRef := [] \<rparr>"

definition resetStats :: "Hook \<Rightarrow> Hook" where
  "resetStats h =
     h\<lparr> state := (state h)\<lparr> distractionEvents := 0, totalFocusedTime := 0,
                              totalDistractedTime := 0, shouldSuggestBreak := False \<rparr>,
         eventTimestampsRef := [] \<rparr>"

text \<open>
  The \<open>setState\<close> updater of the detection loop, for a frame on which \<open>detect\<close> returned
  the detections \<open>ds\<close> (each given by the score of its first category) at time \<open>now\<close>.
\<close>

definition updateAttention :: "int \<Rightarrow> real list \<Rightarrow> Hook \<Rightarrow> Hook" where
  "updateAttention now ds h =
     (let rawFace = (ds \<noteq> []);
          rawScore = (if rawFace then hd ds else 0);
          faceDetected = (rawFace \<and> rawScore > 0.85);
          newState = (state h)\<lparr> isFaceDetected := faceDetected, detectionScore := rawScore \<rparr>
      in if faceDetected then
           (case distractionStartRef h of
              Some start \<Rightarrow>
                h\<lparr> state := newState\<lparr> totalDistractedTime := totalDistractedTime newState + (now - start),
                                       currentDistractionDuration := 0,
                                       totalFocusedTime := totalFocusedTime newState + DETECTION_INTERVAL_MS \<rparr>,
                    distractionStartRef := None,
                    eventTriggeredRef := False \<rparr>
            | None \<Rightarrow>
                h\<lparr> state := newState\<lparr> currentDistractionDuration := 0,
                                       totalFocusedTime := totalFocusedTime newState + DETECTION_INTERVAL_MS \<rparr> \<rparr>)
         else
           (let start = (case distractionStartRef h of None \<Rightarrow> now | Some s \<Rightarrow> s);
                duration = now - start
            in if duration \<ge> DISTRACTION_THRESHOLD_MS \<and> \<not> eventTriggeredRef h then
                 (let stamps = filter (\<lambda>t. now - t < TREND_WINDOW_MS) (eventTimestampsRef h @ [now])
                  in h\<lparr> state := newState\<lparr> currentDistractionDuration := duration,
                                            distractionEvents := Suc (distractionEvents newState),
                                            shouldSuggestBreak :=
                                              (if length stamps \<ge> BREAK_SUGGESTION_THRESHOLD then True
                                               else shouldSuggestBreak newState) \<rparr>,
                         distractionStartRef := Some start,
                         eventTriggeredRef := True,
                         eventTimestampsRef := stamps \<rparr>)
               else
                 h\<lparr> state := newState\<lparr> currentDistractionDuration := duration \<rparr>,
                     distractionStartRef := Some start \<rparr>))"

text \<open>
  One firing of the interval callback. It returns early when a ref is empty or the canvas
  has no 2d context, and swallows an exception of \<open>detect\<close>.
\<close>

datatype frame = NoContext | DetectThrew | Detections "real list"

fun detectionLoop :: "int \<Rightarrow> frame \<Rightarrow> Hook \<Rightarrow> Hook" where
  "detectionLoop now NoContext h = h"
| "detectionLoop now DetectThrew h = h"
| "detectionLoop now (Detections ds) h =
     (if videoRef h = None \<or> canvasRef h = None \<or> detectorRef h = None then h
      else updateAttention now ds h)"

text \<open>What can happen to a mounted hook, and a run of such events.\<close>

datatype hookEvent =
    Start startOutcome
  | Stop
  | Tick int frame
  | Dismiss
  | Reset

fun hookStep :: "Hook \<Rightarrow> hookEvent \<Rightarrow> Hook" where
  "hookStep h (Start out) = fst (startTracking out h)"
| "hookStep h Stop = fst (stopTracking h)"
| "hookStep h (Tick now fr) = detectionLoop now fr h"
| "hookStep h Dismiss = dismissBreakSuggestion h"
| "hookStep h Reset = resetStats h"

definition runHook :: "Hook \<Rightarrow> hookEvent list \<Rightarrow> Hook" where
  "runHook h evs = foldl hookStep h evs"

text \<open>
  The refs the interval callback needs are set; and the events of a stretch of sampling
  ticks, each with the time and the detections of its frame.
\<close>

definition live :: "Hook \<Rightarrow> bool" where
  "live h = (videoRef h \<noteq> None \<and> canvasRef h \<noteq> None \<and> detectorRef h \<noteq> None)"

definition spanTicks :: "(int \<times> real list) list \<Rightarrow> hookEvent list" where
  "spanTicks ticks = map (\<lambda>(t, ds). Tick t (Detections ds)) ticks"

section \<open>The distraction effect of the monitor (frontend/src/components/AttentionMonitor.tsx)\<close>

text \<open>
  What the effect does to the player and to the notice; the notice is given by the event
  count it shows, and the timeout that clears it by its delay in milliseconds.
\<close>

datatype monitorAction =
    PauseVideo
  | SetPauseNotification nat
  | ClearNotificationAfter nat

text \<open>\<open>onPauseVideo?.()\<close>: the callback is optional and is called only when the parent gave one.\<close>

definition callPause :: "bool \<Rightarrow> monitorAction list" where
  "callPause hasOnPauseVideo = (if hasOnPauseVideo then [PauseVideo] else [])"

text \<open>
  One run of the effect on \<open>distractionEvents\<close> and \<open>shouldSuggestBreak\<close>, with the value
  of \<open>lastProcessedEventRef\<close> before it; it returns the actions and the value of the ref
  after it.
\<close>

definition distractionEffect :: "bool \<Rightarrow> nat \<Rightarrow> nat \<times> bool \<Rightarrow> monitorAction list \<times> nat" where
  "distractionEffect hasOnPauseVideo lastProcessed render =
     (let events = fst render;
          suggest = snd render;
          processed =
            (if events > lastProcessed then
               ((if events > 0 \<and> events < 3 then
                   callPause hasOnPauseVideo @ [SetPauseNotification events, ClearNotificationAfter 4000]
                 else []),
                events)
             else ([], lastProcessed))
      in (fst processed @ (if suggest then callPause hasOnPauseVideo else []), snd processed))"

text \<open>The effect over the renders of a mounted monitor, in order, the ref threaded through.\<close>

fun runEffects :: "bool \<Rightarrow> nat \<Rightarrow> (nat \<times> bool) list \<Rightarrow> monitorAction list \<times> nat" where
  "runEffects hasOnPauseVideo lastProcessed [] = ([], lastProcessed)"
| "runEffects hasOnPauseVideo lastProcessed (r # rs) =
     (let first = distractionEffect hasOnPauseVideo lastProcessed r;
          rest = runEffects hasOnPauseVideo (snd first) rs
      in (fst first @ fst rest, snd rest))"

section \<open>The controlled player (frontend/src/components/ControlledVideoPlayer.tsx)\<close>

text \<open>Positions and durations are seconds, modelled as exact reals.\<close>

record Video =
  videoCurrentTime :: real
  videoDuration :: real

record Player =
  maxWatched :: real
  currentTime :: real
  duration :: real
  isPlaying :: bool

record ProgressResponse =
  watched_seconds :: real
  max_watched_seconds :: real
  completed :: bool

datatype postResult = PostThrew | PostOk ProgressResponse

datatype playerAction =
    ApiPost real real
  | OnProgressUpdate bool real
  | LogError


definition handleTimeUpdate :: "real \<Rightarrow> Player \<Rightarrow> Player" where
  "handleTimeUpdate t p =
     (if t > maxWatched p then p\<lparr> currentTime := t, maxWatched := t \<rparr>
      else p\<lparr> currentTime := t \<rparr>)"

text \<open>
  \<open>saveProgress\<close>, for the video element it found in its ref when called and the outcome
  of its request. The player state is written when the response arrives.
\<close>

definition saveProgress :: "bool \<Rightarrow> Video option \<Rightarrow> postResult \<Rightarrow> Player \<Rightarrow> Player \<times> playerAction list" where
  "saveProgress hasOnProgressUpdate video result p =
     (case video of
        None \<Rightarrow> (p, [])
      | Some v \<Rightarrow>
          (case result of
             PostOk res \<Rightarrow>
               (p\<lparr> maxWatched := max_watched_seconds res \<rparr>,
                ApiPost (videoCurrentTime v) (videoDuration v) #
                (if hasOnProgressUpdate then [OnProgressUpdate (completed res) (videoCurrentTime v)]
                 else []))
           | PostThrew \<Rightarrow> (p, [ApiPost (videoCurrentTime v) (videoDuration v), LogError])))"

text \<open>
  \<open>handleEnded\<close>, for the element in the ref when the event fires, the outcome of the
  request, and the element in the ref when the request has returned (the callback's
  argument reads it again).
\<close>

definition handleEnded :: "bool \<Rightarrow> Video option \<Rightarrow> postResult \<Rightarrow> Video option \<Rightarrow> Player \<Rightarrow> Player \<times> playerAction list" where
  "handleEnded hasOnProgressUpdate video result videoAfter p =
     (p\<lparr> isPlaying := False \<rparr>,
      (case video of
         None \<Rightarrow> []
       | Some v \<Rightarrow>
           ApiPost (videoDuration v) (videoDuration v) #
           (case result of
              PostThrew \<Rightarrow> [LogError]
            | PostOk res \<Rightarrow>
                (if hasOnProgressUpdate then
                   (case videoAfter of
                      None \<Rightarrow> [LogError]
                    | Some v' \<Rightarrow> [OnProgressUpdate True (videoDuration v')])
                 else []))))"

text \<open>
  The two writers of \<open>maxWatched\<close> in the order in which they reach the state: a
  \<open>timeupdate\<close> event, or the arrival of the response to an earlier \<open>saveProgress\<close>.
\<close>

datatype playerEvent =
    TimeUpdate real
  | ProgressSaved "Video option" postResult

fun playerStep :: "bool \<Rightarrow> Player \<Rightarrow> playerEvent \<Rightarrow> Player" where
  "playerStep cb p (TimeUpdate t) = handleTimeUpdate t p"
| "playerStep cb p (ProgressSaved video result) = fst (saveProgress cb video result p)"

definition runPlayer :: "bool \<Rightarrow> Player \<Rightarrow> playerEvent list \<Rightarrow> Player" where
  "runPlayer cb p evs = foldl (playerStep cb) p evs"

section \<open>The progress store of the server\<close>

text \<open>
  Modelled from the spec: the server operation \<open>reportProgress\<close> and the
  \<open>WatchProgress\<close> row it keeps; the backend is not among the sources, which only hold
  its clients and a sentence of documentation. The model follows section 4.1 of the
  specification: the input constraints, the clamped ratchet, \<open>watchedSeconds\<close> stored as
  reported, \<open>totalSeconds\<close> set on the first report, \<open>completed\<close> recomputed, and the
  updated triple returned. \<open>MAX_ADVANCE\<close> is a parameter. The flag \<open>authorized\<close>
  stands for the caller being authenticated and enrolled.
\<close>

record WatchProgress =
  watchedSeconds :: real
  totalSeconds :: real
  maxWatchedSeconds :: real
  progressCompleted :: bool

datatype syncError = AuthorizationError | ValidationError

type_synonym progressStore = "nat \<times> nat \<rightharpoonup> WatchProgress"

definition storedMax :: "progressStore \<Rightarrow> nat \<Rightarrow> nat \<Rightarrow> real" where
  "storedMax store userId videoId =
     (case store (userId, videoId) of None \<Rightarrow> 0 | Some row \<Rightarrow> maxWatchedSeconds row)"

definition reportProgress ::
  "real \<Rightarrow> progressStore \<Rightarrow> bool \<Rightarrow> nat \<Rightarrow> nat \<Rightarrow> real \<Rightarrow> real \<Rightarrow> syncError + progressStore \<times> ProgressResponse" where
  "reportProgress MAX_ADVANCE store authorized userId videoId watched totalSecs =
     (if \<not> authorized then Inl AuthorizationError
      else if watched < 0 \<or> totalSecs \<le> 0 then Inl ValidationError
      else
        (let lastMax = storedMax store userId videoId;
             newMax = min (max lastMax watched) (lastMax + MAX_ADVANCE);
             duration' = (case store (userId, videoId) of None \<Rightarrow> totalSecs | Some row \<Rightarrow> totalSeconds row);
             finished = (newMax \<ge> 0.9 * duration')
         in Inr (store((userId, videoId) \<mapsto>
                   \<lparr> watchedSeconds = watched, totalSeconds = duration',
                     maxWatchedSeconds = newMax, progressCompleted = finished \<rparr>),
                 \<lparr> watched_seconds = watched, max_watched_seconds = newMax, completed = finished \<rparr>)))"

text \<open>A sequence of calls; a rejected call leaves the store as it was.\<close>

record report =
  reportAuthorized :: bool
  reportUser :: nat
  reportVideo :: nat
  reportWatched :: real
  reportTotal :: real

definition applyReport :: "real \<Rightarrow> progressStore \<Rightarrow> report \<Rightarrow> progressStore" where
  "applyReport MAX_ADVANCE store r =
     (case reportProgress MAX_ADVANCE store (reportAuthorized r) (reportUser r) (reportVideo r)
             (reportWatched r) (reportTotal r) of
        Inl e \<Rightarrow> store
      | Inr ok \<Rightarrow> fst ok)"

definition reportAll :: "real \<Rightarrow> progressStore \<Rightarrow> report list \<Rightarrow> progressStore" where
  "reportAll MAX_ADVANCE store rs = foldl (applyReport MAX_ADVANCE) store rs"

section \<open>The ratchet of the progress store\<close>

lemma applyReport_storedMax:
  assumes "0 \<le> A"
  shows "storedMax store u v \<le> storedMax (applyReport A store r) u v \<and>
         storedMax (applyReport A store r) u v \<le> storedMax store u v + A"
  using assms
  by (auto simp: applyReport_def reportProgress_def storedMax_def Let_def split: option.splits)

lemma reportAll_snoc: "reportAll A store (rs @ [r]) = applyReport A (reportAll A store rs) r"
  by (simp add: reportAll_def)

lemma reportProgress_accepted:
  assumes "reportProgress A store True u v w t = Inr (store', res)"
  shows "storedMax store' u v = min (max (storedMax store u v) w) (storedMax store u v + A) \<and>
         max_watched_seconds res = storedMax store' u v"
  using assms
  by (auto simp: reportProgress_def storedMax_def Let_def split: if_splits)

text \<open>
  C1. For a fixed user and video and a non-negative \<open>MAX_ADVANCE\<close>, along every
  sequence of \<open>reportProgress\<close> calls (for any users and videos, accepted or rejected)
  the stored \<open>maxWatchedSeconds\<close> never decreases and no call raises it by more than
  \<open>MAX_ADVANCE\<close>; an accepted call stores and returns
  \<open>min (max lastMax watchedSeconds) (lastMax + MAX_ADVANCE)\<close>; and with \<open>lastMax = 100\<close>
  and \<open>MAX_ADVANCE = 15\<close> a report of 500 seconds yields 115.
\<close>

theorem reportProgress_ratchet:
  assumes "0 \<le> A"
  shows "(i < length rs \<longrightarrow>
            storedMax (reportAll A store (take i rs)) u v
              \<le> storedMax (reportAll A store (take (Suc i) rs)) u v \<and>
            storedMax (reportAll A store (take (Suc i) rs)) u v
              \<le> storedMax (reportAll A store (take i rs)) u v + A) \<and>
         (reportProgress A store True u v w t = Inr (store', res) \<longrightarrow>
            storedMax store' u v = min (max (storedMax store u v) w) (storedMax store u v + A) \<and>
            max_watched_seconds res = storedMax store' u v) \<and>
         (storedMax store u v = 100 \<and> 0 < t \<longrightarrow>
            (\<exists>store'' res''. reportProgress 15 store True u v 500 t = Inr (store'', res'') \<and>
               storedMax store'' u v = 115 \<and> max_watched_seconds res'' = 115))"
proof (intro conjI impI)
  assume i: "i < length rs"
  then have snoc: "take (Suc i) rs = take i rs @ [rs ! i]"
    by (simp add: take_Suc_conv_app_nth)
  show "storedMax (reportAll A store (take i rs)) u v
          \<le> storedMax (reportAll A store (take (Suc i) rs)) u v"
    using applyReport_storedMax [OF assms] by (simp add: snoc reportAll_snoc)
  show "storedMax (reportAll A store (take (Suc i) rs)) u v
          \<le> storedMax (reportAll A store (take i rs)) u v + A"
    using applyReport_storedMax [OF assms] by (simp add: snoc reportAll_snoc)
next
  assume "reportProgress A store True u v w t = Inr (store', res)"
  then show "storedMax store' u v = min (max (storedMax store u v) w) (storedMax store u v + A)"
    and "max_watched_seconds res = storedMax store' u v"
    using reportProgress_accepted by blast+
next
  assume "storedMax store u v = 100 \<and> 0 < t"
  then show "\<exists>store'' res''. reportProgress 15 store True u v 500 t = Inr (store'', res'') \<and>
               storedMax store'' u v = 115 \<and> max_watched_seconds res'' = 115"
    by (simp add: reportProgress_def storedMax_def Let_def)
qed

theorem reportProgress_ratchet_witness:
  "(0::real) \<le> 15 \<and>
   storedMax (reportAll 15 (Map.empty((1, 1) \<mapsto> \<lparr> watchedSeconds = 100, totalSeconds = 600,
        maxWatchedSeconds = 100, progressCompleted = False \<rparr>))
      [\<lparr> reportAuthorized = True, reportUser = 1, reportVideo = 1, reportWatched = 500, reportTotal = 600 \<rparr>]) 1 1
     \<le> 100 + 15 \<and>
   reportProgress 15 (Map.empty((1, 1) \<mapsto> \<lparr> watchedSeconds = 100, totalSeconds = 600,
        maxWatchedSeconds = 100, progressCompleted = False \<rparr>)) True 1 1 500 600 =
     Inr (Map.empty((1, 1) \<mapsto> \<lparr> watchedSeconds = 500, totalSeconds = 600,
            maxWatchedSeconds = 115, progressCompleted = False \<rparr>),
          \<lparr> watched_seconds = 500, max_watched_seconds = 115, completed = False \<rparr>) \<and>
   storedMax (Map.empty((1, 1) \<mapsto> \<lparr> watchedSeconds = 500, totalSeconds = 600,
        maxWatchedSeconds = 115, progressCompleted = False \<rparr>)) 1 1 = 115"
proof -
  have A: "(0::real) \<le> 15" by simp
  have S: "storedMax (Map.empty((1::nat, 1::nat) \<mapsto> \<lparr> watchedSeconds = 100, totalSeconds = 600,
        maxWatchedSeconds = 100, progressCompleted = False \<rparr>)) 1 1 = 100"
    by (simp add: storedMax_def)
  have R: "reportProgress 15 (Map.empty((1, 1) \<mapsto> \<lparr> watchedSeconds = 100, totalSeconds = 600,
        maxWatchedSeconds = 100, progressCompleted = False \<rparr>)) True 1 1 500 600 =
     Inr (Map.empty((1, 1) \<mapsto> \<lparr> watchedSeconds = 500, totalSeconds = 600,
            maxWatchedSeconds = 115, progressCompleted = False \<rparr>),
          \<lparr> watched_seconds = 500, max_watched_seconds = 115, completed = False \<rparr>)"
    by (simp add: reportProgress_def storedMax_def Let_def)
  have E: "reportAll 15 (Map.empty((1::nat, 1::nat) \<mapsto> \<lparr> watchedSeconds = 100, totalSeconds = 600,
        maxWatchedSeconds = 100, progressCompleted = False \<rparr>)) [] =
       Map.empty((1, 1) \<mapsto> \<lparr> watchedSeconds = 100, totalSeconds = 600,
        maxWatchedSeconds = 100, progressCompleted = False \<rparr>)"
    by (simp add: reportAll_def)
  show ?thesis
    using reportProgress_ratchet [OF A, where i = 0 and u = 1 and v = 1 and w = 500 and t = 600
        and rs = "[\<lparr> reportAuthorized = True, reportUser = 1, reportVideo = 1, reportWatched = 500, reportTotal = 600 \<rparr>]"
        and store = "Map.empty((1, 1) \<mapsto> \<lparr> watchedSeconds = 100, totalSeconds = 600,
              maxWatchedSeconds = 100, progressCompleted = False \<rparr>)"
        and store' = "Map.empty((1, 1) \<mapsto> \<lparr> watchedSeconds = 500, totalSeconds = 600,
              maxWatchedSeconds = 115, progressCompleted = False \<rparr>)"
        and res = "\<lparr> watched_seconds = 500, max_watched_seconds = 115, completed = False \<rparr>"]
      S R E
    by simp
qed

section \<open>The seek guard\<close>




section \<open>Debouncing of distraction events\<close>

lemmas hook_eval = runHook_def initialHook_def stopTracking_def updateAttention_def Let_def
  dismissBreakSuggestion_def resetStats_def
  DISTRACTION_THRESHOLD_MS_def DETECTION_INTERVAL_MS_def TREND_WINDOW_MS_def BREAK_SUGGESTION_THRESHOLD_def

text \<open>
  A tick without a qualifying detection keeps the start of the stretch, and adds an event
  exactly when the threshold is reached and the guard is clear.
\<close>

lemma absent_tick:
  assumes "live h" and "distractionStartRef h = Some t0" and "\<not> (ds \<noteq> [] \<and> hd ds > 0.85)"
  shows "live (detectionLoop t (Detections ds) h) \<and>
         distractionStartRef (detectionLoop t (Detections ds) h) = Some t0 \<and>
         eventTriggeredRef (detectionLoop t (Detections ds) h) =
           (eventTriggeredRef h \<or> DISTRACTION_THRESHOLD_MS \<le> t - t0) \<and>
         distractionEvents (state (detectionLoop t (Detections ds) h)) =
           (if \<not> eventTriggeredRef h \<and> DISTRACTION_THRESHOLD_MS \<le> t - t0
            then Suc (distractionEvents (state h)) else distractionEvents (state h))"
  using assms by (auto simp: live_def updateAttention_def Let_def)

text \<open>
  A stretch of ticks without a qualifying detection, on a hook whose stretch began at
  \<open>t0\<close>: one event if the guard is clear and some tick is at least the threshold after
  \<open>t0\<close>, none otherwise.
\<close>

lemma span_count:
  assumes "live h" and "distractionStartRef h = Some t0"
    and "\<forall>(t, ds) \<in> set ticks. \<not> (ds \<noteq> [] \<and> hd ds > 0.85)"
  shows "distractionEvents (state (runHook h (spanTicks ticks))) =
           (if \<not> eventTriggeredRef h \<and> (\<exists>(t, ds) \<in> set ticks. DISTRACTION_THRESHOLD_MS \<le> t - t0)
            then Suc (distractionEvents (state h)) else distractionEvents (state h))"
  using assms
proof (induction ticks arbitrary: h)
  case Nil
  show ?case by (simp add: runHook_def spanTicks_def)
next
  case (Cons x ticks)
  obtain t ds where x: "x = (t, ds)" by (cases x)
  let ?h = "detectionLoop t (Detections ds) h"
  have absent: "\<not> (ds \<noteq> [] \<and> hd ds > 0.85)" using Cons.prems(3) x by simp
  note step = absent_tick [OF Cons.prems(1) Cons.prems(2) absent, of t]
  have rest: "\<forall>(t, ds) \<in> set ticks. \<not> (ds \<noteq> [] \<and> hd ds > 0.85)" using Cons.prems(3) by simp
  have run: "runHook h (spanTicks (x # ticks)) = runHook ?h (spanTicks ticks)"
    by (simp add: runHook_def spanTicks_def x)
  have IH: "distractionEvents (state (runHook ?h (spanTicks ticks))) =
           (if \<not> eventTriggeredRef ?h \<and> (\<exists>(t, ds) \<in> set ticks. DISTRACTION_THRESHOLD_MS \<le> t - t0)
            then Suc (distractionEvents (state ?h)) else distractionEvents (state ?h))"
    using Cons.IH [of ?h] step rest by blast
  show ?case
    unfolding run IH using step x by auto
qed

text \<open>
  A stretch that begins with no stretch open and the guard clear emits exactly one event
  when it lasts the threshold or longer, however long it is.
\<close>

lemma fresh_span_count:
  assumes "live h" and "distractionStartRef h = None" and "\<not> eventTriggeredRef h"
    and "\<forall>(t, ds) \<in> set ((t0, ds0) # ticks). \<not> (ds \<noteq> [] \<and> hd ds > 0.85)"
  shows "distractionEvents (state (runHook h (spanTicks ((t0, ds0) # ticks)))) =
           (if \<exists>(t, ds) \<in> set ticks. DISTRACTION_THRESHOLD_MS \<le> t - t0
            then Suc (distractionEvents (state h)) else distractionEvents (state h))"
proof -
  let ?h = "detectionLoop t0 (Detections ds0) h"
  have absent: "\<not> (ds0 \<noteq> [] \<and> hd ds0 > 0.85)" using assms(4) by simp
  have first: "live ?h \<and> distractionStartRef ?h = Some t0 \<and> \<not> eventTriggeredRef ?h \<and>
      distractionEvents (state ?h) = distractionEvents (state h)"
    using assms(1-3) absent
    by (auto simp: live_def updateAttention_def Let_def DISTRACTION_THRESHOLD_MS_def)
  have rest: "\<forall>(t, ds) \<in> set ticks. \<not> (ds \<noteq> [] \<and> hd ds > 0.85)" using assms(4) by simp
  have run: "runHook h (spanTicks ((t0, ds0) # ticks)) = runHook ?h (spanTicks ticks)"
    by (simp add: runHook_def spanTicks_def)
  show ?thesis
    unfolding run using span_count [of ?h t0 ticks] first rest by simp
qed

text \<open>While the guard is set, a stretch without a qualifying detection emits nothing.\<close>

lemma stale_span_count:
  assumes "live h" and "eventTriggeredRef h"
    and "\<forall>(t, ds) \<in> set ((t0, ds0) # ticks). \<not> (ds \<noteq> [] \<and> hd ds > 0.85)"
  shows "distractionEvents (state (runHook h (spanTicks ((t0, ds0) # ticks)))) = distractionEvents (state h)"
proof -
  let ?h = "detectionLoop t0 (Detections ds0) h"
  let ?s = "case distractionStartRef h of None \<Rightarrow> t0 | Some s \<Rightarrow> s"
  have absent: "\<not> (ds0 \<noteq> [] \<and> hd ds0 > 0.85)" using assms(3) by simp
  have first: "live ?h \<and> distractionStartRef ?h = Some ?s \<and> eventTriggeredRef ?h \<and>
      distractionEvents (state ?h) = distractionEvents (state h)"
    using assms(1,2) absent
    by (auto simp: live_def updateAttention_def Let_def)
  have rest: "\<forall>(t, ds) \<in> set ticks. \<not> (ds \<noteq> [] \<and> hd ds > 0.85)" using assms(3) by simp
  have run: "runHook h (spanTicks ((t0, ds0) # ticks)) = runHook ?h (spanTicks ticks)"
    by (simp add: runHook_def spanTicks_def)
  show ?thesis
    unfolding run using span_count [of ?h ?s ticks] first rest by simp
qed

text \<open>
  The guard is set only while a stretch is open. Every event but \<open>Stop\<close> keeps this;
  \<open>stopTracking\<close> closes the stretch and leaves the guard as it is.
\<close>

lemma guard_invariant_step:
  assumes "eventTriggeredRef h \<longrightarrow> distractionStartRef h \<noteq> None" and "e \<noteq> Stop"
  shows "eventTriggeredRef (hookStep h e) \<longrightarrow> distractionStartRef (hookStep h e) \<noteq> None"
proof (cases e)
  case (Start out)
  then show ?thesis using assms by (cases out) simp_all
next
  case Stop
  then show ?thesis using assms by simp
next
  case (Tick now fr)
  then show ?thesis using assms
    by (cases fr) (auto simp: updateAttention_def Let_def split: option.splits)
next
  case Dismiss
  then show ?thesis using assms by (simp add: dismissBreakSuggestion_def)
next
  case Reset
  then show ?thesis using assms by (simp add: resetStats_def)
qed

lemma stop_breaks_guard:
  "eventTriggeredRef (hookStep h Stop) = eventTriggeredRef h \<and> distractionStartRef (hookStep h Stop) = None"
  by (simp add: stopTracking_def)

text \<open>
  C3. A run of the sampler that follows a stop. The first run sees ten seconds without a
  detection and emits its event; tracking is stopped with the guard still set, and started
  again. The second run begins with a qualifying detection, which leaves the guard set
  because no stretch is open, and then sees twenty seconds without any detection, twice
  the threshold: it emits no event at all, where the same ticks on a fresh hook emit one.
\<close>

theorem restart_swallows_span:
  "distractionEvents (state (runHook (initialHook 0)
      [Start (Started [1] 2 3 4 5),
       Tick 1000 (Detections []), Tick 11000 (Detections []),
       Stop])) = 1 \<and>
   eventTriggeredRef (runHook (initialHook 0)
      [Start (Started [1] 2 3 4 5),
       Tick 1000 (Detections []), Tick 11000 (Detections []),
       Stop,
       Start (Started [6] 7 8 9 10),
       Tick 20000 (Detections [0.9])]) \<and>
   distractionEvents (state (runHook (initialHook 0)
      [Start (Started [1] 2 3 4 5),
       Tick 1000 (Detections []), Tick 11000 (Detections []),
       Stop,
       Start (Started [6] 7 8 9 10),
       Tick 20000 (Detections [0.9]),
       Tick 20500 (Detections []), Tick 30500 (Detections []), Tick 40500 (Detections [])])) = 1 \<and>
   distractionEvents (state (runHook (initialHook 0)
      [Start (Started [6] 7 8 9 10),
       Tick 20000 (Detections [0.9]),
       Tick 20500 (Detections []), Tick 30500 (Detections []), Tick 40500 (Detections [])])) = 1"
  by (simp add: hook_eval)

section \<open>The trend window and the break suggestion\<close>

text \<open>
  C4. From a state without a break suggestion, \<open>shouldSuggestBreak\<close> becomes true by
  an event of the hook exactly when that event is a tick that appends a distraction event
  and the timestamps younger than \<open>TREND_WINDOW_MS\<close>, the new one included, number at
  least \<open>BREAK_SUGGESTION_THRESHOLD\<close>; the timestamps kept are exactly those; and a
  third event whose first predecessor is \<open>TREND_WINDOW_MS\<close> old or older does not set it.
\<close>

theorem break_suggestion_trigger:
  "(\<not> shouldSuggestBreak (state h) \<longrightarrow>
      shouldSuggestBreak (state (hookStep h e)) =
        (\<exists>now fr. e = Tick now fr \<and>
           distractionEvents (state (hookStep h e)) = Suc (distractionEvents (state h)) \<and>
           BREAK_SUGGESTION_THRESHOLD \<le>
             length (filter (\<lambda>t. now - t < TREND_WINDOW_MS) (eventTimestampsRef h @ [now])))) \<and>
   (distractionEvents (state (detectionLoop now fr h)) = Suc (distractionEvents (state h)) \<longrightarrow>
      eventTimestampsRef (detectionLoop now fr h) =
        filter (\<lambda>t. now - t < TREND_WINDOW_MS) (eventTimestampsRef h @ [now])) \<and>
   (\<not> shouldSuggestBreak (state h) \<and> eventTimestampsRef h = [t1, t2] \<and> TREND_WINDOW_MS \<le> now - t1 \<longrightarrow>
      \<not> shouldSuggestBreak (state (detectionLoop now fr h)))"
proof (intro conjI impI)
  assume ns: "\<not> shouldSuggestBreak (state h)"
  show "shouldSuggestBreak (state (hookStep h e)) =
        (\<exists>now fr. e = Tick now fr \<and>
           distractionEvents (state (hookStep h e)) = Suc (distractionEvents (state h)) \<and>
           BREAK_SUGGESTION_THRESHOLD \<le>
             length (filter (\<lambda>t. now - t < TREND_WINDOW_MS) (eventTimestampsRef h @ [now])))"
  proof (cases e)
    case (Start out)
    then show ?thesis using ns by (cases out) simp_all
  next
    case Stop
    then show ?thesis using ns by (simp add: stopTracking_def)
  next
    case (Tick now fr)
    then show ?thesis using ns
      by (cases fr) (auto simp: updateAttention_def Let_def split: option.splits)
  next
    case Dismiss
    then show ?thesis by (simp add: dismissBreakSuggestion_def)
  next
    case Reset
    then show ?thesis by (simp add: resetStats_def)
  qed
next
  assume "distractionEvents (state (detectionLoop now fr h)) = Suc (distractionEvents (state h))"
  then show "eventTimestampsRef (detectionLoop now fr h) =
        filter (\<lambda>t. now - t < TREND_WINDOW_MS) (eventTimestampsRef h @ [now])"
    by (cases fr) (auto simp: updateAttention_def Let_def split: option.splits if_splits)
next
  assume "\<not> shouldSuggestBreak (state h) \<and> eventTimestampsRef h = [t1, t2] \<and> TREND_WINDOW_MS \<le> now - t1"
  then show "\<not> shouldSuggestBreak (state (detectionLoop now fr h))"
    by (cases fr) (auto simp: updateAttention_def Let_def BREAK_SUGGESTION_THRESHOLD_def split: option.splits)
qed

theorem break_suggestion_trigger_witness:
  "shouldSuggestBreak (state (hookStep
      (runHook (initialHook 0)
        [Start (Started [1] 2 3 4 5),
         Tick 0 (Detections []), Tick 10000 (Detections []), Tick 10500 (Detections [0.9]),
         Tick 11000 (Detections []), Tick 21000 (Detections []), Tick 21500 (Detections [0.9]),
         Tick 22000 (Detections [])])
      (Tick 32000 (Detections [])))) \<and>
   eventTimestampsRef (detectionLoop 32000 (Detections [])
      (runHook (initialHook 0)
        [Start (Started [1] 2 3 4 5),
         Tick 0 (Detections []), Tick 10000 (Detections []), Tick 10500 (Detections [0.9]),
         Tick 11000 (Detections []), Tick 21000 (Detections []), Tick 21500 (Detections [0.9]),
         Tick 22000 (Detections [])])) = [10000, 21000, 32000] \<and>
   \<not> shouldSuggestBreak (state (detectionLoop 3610000 (Detections [])
      (runHook (initialHook 0)
        [Start (Started [1] 2 3 4 5),
         Tick 0 (Detections []), Tick 10000 (Detections []), Tick 10500 (Detections [0.9]),
         Tick 11000 (Detections []), Tick 21000 (Detections []), Tick 21500 (Detections [0.9]),
         Tick 22000 (Detections [])])))"
proof -
  let ?h = "runHook (initialHook 0)
        [Start (Started [1] 2 3 4 5),
         Tick 0 (Detections []), Tick 10000 (Detections []), Tick 10500 (Detections [0.9]),
         Tick 11000 (Detections []), Tick 21000 (Detections []), Tick 21500 (Detections [0.9]),
         Tick 22000 (Detections [])]"
  have quiet: "\<not> shouldSuggestBreak (state ?h)"
    by (simp add: hook_eval)
  have stamps: "eventTimestampsRef ?h = [10000, 21000]"
    by (simp add: hook_eval)
  have count: "distractionEvents (state ?h) = 2"
    by (simp add: hook_eval)
  have fired: "distractionEvents (state (detectionLoop 32000 (Detections []) ?h)) = 3"
    by (simp add: hook_eval)
  have old: "TREND_WINDOW_MS \<le> 3610000 - 10000"
    by (simp add: TREND_WINDOW_MS_def)
  have young: "BREAK_SUGGESTION_THRESHOLD \<le>
      length (filter (\<lambda>t. 32000 - t < TREND_WINDOW_MS) ([10000, 21000] @ [32000]))"
    by (simp add: TREND_WINDOW_MS_def BREAK_SUGGESTION_THRESHOLD_def)
  have pruned: "filter (\<lambda>t. 32000 - t < TREND_WINDOW_MS) ([10000, 21000] @ [32000]) = [10000, 21000, 32000]"
    by (simp add: TREND_WINDOW_MS_def)
  show ?thesis
    using break_suggestion_trigger [where h = ?h and e = "Tick 32000 (Detections [])"
        and now = 32000 and fr = "Detections []" and ?t1.0 = 10000 and ?t2.0 = 21000]
      break_suggestion_trigger [where h = ?h and e = "Tick 3610000 (Detections [])"
        and now = 3610000 and fr = "Detections []" and ?t1.0 = 10000 and ?t2.0 = 21000]
      quiet stamps count fired old young pruned
    by (simp add: hook_eval)
qed

section \<open>Pausing on distraction events\<close>

lemma distractionEffect_notice:
  assumes "SetPauseNotification n \<in> set (fst (distractionEffect hp lastProcessed r))"
  shows "n = fst r \<and> lastProcessed < n \<and> snd (distractionEffect hp lastProcessed r) = n"
  using assms
  by (auto simp: distractionEffect_def callPause_def Let_def split: if_splits)

lemma distractionEffect_count:
  "count_list (fst (distractionEffect hp lastProcessed r)) (SetPauseNotification n) \<le> 1"
  by (simp add: distractionEffect_def callPause_def Let_def)

lemma distractionEffect_mono: "lastProcessed \<le> snd (distractionEffect hp lastProcessed r)"
  by (simp add: distractionEffect_def Let_def)

lemma runEffects_mono: "lastProcessed \<le> snd (runEffects hp lastProcessed rs)"
proof (induction rs arbitrary: lastProcessed)
  case Nil
  show ?case by simp
next
  case (Cons r rs)
  have "lastProcessed \<le> snd (distractionEffect hp lastProcessed r)"
    by (rule distractionEffect_mono)
  also have "\<dots> \<le> snd (runEffects hp (snd (distractionEffect hp lastProcessed r)) rs)"
    by (rule Cons.IH)
  finally show ?case by (simp add: Let_def)
qed

lemma runEffects_notice:
  "SetPauseNotification n \<in> set (fst (runEffects hp lastProcessed rs)) \<Longrightarrow> lastProcessed < n"
proof (induction rs arbitrary: lastProcessed)
  case Nil
  then show ?case by simp
next
  case (Cons r rs)
  from Cons.prems consider
      (here) "SetPauseNotification n \<in> set (fst (distractionEffect hp lastProcessed r))"
    | (later) "SetPauseNotification n \<in> set (fst (runEffects hp (snd (distractionEffect hp lastProcessed r)) rs))"
    by (auto simp: Let_def)
  then show ?case
  proof cases
    case here
    then show ?thesis using distractionEffect_notice by blast
  next
    case later
    then have "snd (distractionEffect hp lastProcessed r) < n" by (rule Cons.IH)
    then show ?thesis using distractionEffect_mono [of lastProcessed hp r] by simp
  qed
qed

lemma runEffects_count:
  "count_list (fst (runEffects hp lastProcessed rs)) (SetPauseNotification n) \<le> 1"
proof (induction rs arbitrary: lastProcessed)
  case Nil
  show ?case by simp
next
  case (Cons r rs)
  let ?first = "distractionEffect hp lastProcessed r"
  let ?rest = "runEffects hp (snd ?first) rs"
  have split: "count_list (fst (runEffects hp lastProcessed (r # rs))) (SetPauseNotification n) =
      count_list (fst ?first) (SetPauseNotification n) + count_list (fst ?rest) (SetPauseNotification n)"
    by (simp add: Let_def)
  show ?case
  proof (cases "SetPauseNotification n \<in> set (fst ?first)")
    case True
    then have "snd ?first = n" using distractionEffect_notice by blast
    then have "SetPauseNotification n \<notin> set (fst ?rest)"
      using runEffects_notice [of n hp "snd ?first" rs] by auto
    then have "count_list (fst ?rest) (SetPauseNotification n) = 0"
      by (simp add: count_list_0_iff)
    then show ?thesis using split distractionEffect_count [of hp lastProcessed r n] by simp
  next
    case False
    then have "count_list (fst ?first) (SetPauseNotification n) = 0"
      by (simp add: count_list_0_iff)
    then show ?thesis using split Cons.IH [of "snd ?first"] by simp
  qed
qed

lemma runEffects_append:
  "runEffects hp lastProcessed (rs @ rs') =
     (fst (runEffects hp lastProcessed rs) @ fst (runEffects hp (snd (runEffects hp lastProcessed rs)) rs'),
      snd (runEffects hp (snd (runEffects hp lastProcessed rs)) rs'))"
  by (induction rs arbitrary: lastProcessed) (simp_all add: Let_def)

lemma runEffects_below:
  assumes "\<forall>r \<in> set rs. fst r < n" and "lastProcessed < n"
  shows "snd (runEffects hp lastProcessed rs) < n"
  using assms
proof (induction rs arbitrary: lastProcessed)
  case Nil
  then show ?case by simp
next
  case (Cons r rs)
  have "snd (distractionEffect hp lastProcessed r) < n"
    using Cons.prems by (simp add: distractionEffect_def Let_def)
  then show ?case using Cons by (simp add: Let_def)
qed

lemma distractionEffect_fires:
  assumes "n = 1 \<or> n = 2" and "lastProcessed < n"
  shows "SetPauseNotification n \<in> set (fst (distractionEffect hp lastProcessed (n, s)))"
  using assms by (auto simp: distractionEffect_def Let_def)

text \<open>
  While the processed count is below it, the effect run for event count 1 or 2 pauses the
  video once and shows the notice for that count, cleared after four seconds; over the
  renders of a monitor, a count of 1 or 2 that is reached before any larger count shows
  its notice exactly once; whenever \<open>shouldSuggestBreak\<close> is true the effect pauses the
  video; and no run of the effect shows the notice of one count twice.
\<close>

theorem distractionEffect_pauses_once:
  "((events = 1 \<or> events = 2) \<and> lastProcessed < events \<longrightarrow>
      distractionEffect True lastProcessed (events, False) =
        ([PauseVideo, SetPauseNotification events, ClearNotificationAfter 4000], events)) \<and>
   ((n = 1 \<or> n = 2) \<and> lastProcessed < n \<and> (\<forall>r \<in> set before. fst r < n) \<longrightarrow>
      count_list (fst (runEffects hp lastProcessed (before @ (n, s) # after))) (SetPauseNotification n) = 1) \<and>
   PauseVideo \<in> set (fst (distractionEffect True lastProcessed (events, True))) \<and>
   count_list (fst (runEffects hp lastProcessed renders)) (SetPauseNotification n) \<le> 1"
proof (intro conjI impI)
  assume "(events = 1 \<or> events = 2) \<and> lastProcessed < events"
  then show "distractionEffect True lastProcessed (events, False) =
        ([PauseVideo, SetPauseNotification events, ClearNotificationAfter 4000], events)"
    by (auto simp: distractionEffect_def callPause_def Let_def)
next
  assume a: "(n = 1 \<or> n = 2) \<and> lastProcessed < n \<and> (\<forall>r \<in> set before. fst r < n)"
  let ?mid = "snd (runEffects hp lastProcessed before)"
  have "?mid < n" using a runEffects_below by blast
  then have "SetPauseNotification n \<in> set (fst (distractionEffect hp ?mid (n, s)))"
    using a distractionEffect_fires by blast
  then have "SetPauseNotification n \<in> set (fst (runEffects hp lastProcessed (before @ (n, s) # after)))"
    by (simp add: runEffects_append Let_def)
  then have "count_list (fst (runEffects hp lastProcessed (before @ (n, s) # after))) (SetPauseNotification n) \<noteq> 0"
    by (simp add: count_list_0_iff)
  then show "count_list (fst (runEffects hp lastProcessed (before @ (n, s) # after))) (SetPauseNotification n) = 1"
    using runEffects_count [of hp lastProcessed "before @ (n, s) # after" n] by linarith
next
  show "PauseVideo \<in> set (fst (distractionEffect True lastProcessed (events, True)))"
    by (simp add: distractionEffect_def callPause_def Let_def)
next
  show "count_list (fst (runEffects hp lastProcessed renders)) (SetPauseNotification n) \<le> 1"
    by (rule runEffects_count)
qed

theorem distractionEffect_pauses_once_witness:
  "distractionEffect True 0 (1, False) =
     ([PauseVideo, SetPauseNotification 1, ClearNotificationAfter 4000], 1) \<and>
   distractionEffect True 1 (2, False) =
     ([PauseVideo, SetPauseNotification 2, ClearNotificationAfter 4000], 2) \<and>
   count_list (fst (runEffects True 0 ([(0, False), (1, False), (1, False)] @ (2, False) # [(2, False), (3, True)])))
     (SetPauseNotification 2) = 1"
  using distractionEffect_pauses_once [where events = 1 and lastProcessed = 0 and n = 2 and hp = True
      and before = "[(0, False), (1, False), (1, False)]" and s = False and after = "[(2, False), (3, True)]"]
    distractionEffect_pauses_once [where events = 2 and lastProcessed = 1 and n = 2 and hp = True
      and before = "[]" and s = False and after = "[]"]
  by simp

text \<open>
  C5. The first two distraction events after a break. Three events bring the count to 3
  and the processed count with it; taking the break resets the count of the hook to 0 and
  leaves the processed count at 3; the next distraction event makes the count 1 again.
  The effect then runs for the counts 0, 1 and 2 with the processed count 3: it neither
  pauses the video nor shows a notice, so over the whole sequence only the first
  occurrence of each count is answered.
\<close>

theorem break_silences_pauses:
  "distractionEvents (state (runHook (initialHook 0)
      [Start (Started [1] 2 3 4 5),
       Tick 0 (Detections []), Tick 10000 (Detections []), Tick 10500 (Detections [0.9]),
       Tick 11000 (Detections []), Tick 21000 (Detections []), Tick 21500 (Detections [0.9]),
       Tick 22000 (Detections []), Tick 32000 (Detections [])])) = 3 \<and>
   distractionEvents (state (runHook (initialHook 0)
      [Start (Started [1] 2 3 4 5),
       Tick 0 (Detections []), Tick 10000 (Detections []), Tick 10500 (Detections [0.9]),
       Tick 11000 (Detections []), Tick 21000 (Detections []), Tick 21500 (Detections [0.9]),
       Tick 22000 (Detections []), Tick 32000 (Detections []),
       Reset,
       Tick 400000 (Detections [0.9]),
       Tick 400500 (Detections []), Tick 410500 (Detections [])])) = 1 \<and>
   runEffects True 0 [(0, False), (1, False), (2, False), (3, True)] =
     ([PauseVideo, SetPauseNotification 1, ClearNotificationAfter 4000,
       PauseVideo, SetPauseNotification 2, ClearNotificationAfter 4000,
       PauseVideo], 3) \<and>
   distractionEffect True 3 (0, False) = ([], 3) \<and>
   distractionEffect True 3 (1, False) = ([], 3) \<and>
   distractionEffect True 3 (2, False) = ([], 3) \<and>
   runEffects True 0 [(0, False), (1, False), (2, False), (3, True), (0, False), (1, False), (2, False)] =
     ([PauseVideo, SetPauseNotification 1, ClearNotificationAfter 4000,
       PauseVideo, SetPauseNotification 2, ClearNotificationAfter 4000,
       PauseVideo], 3)"
  by (simp add: hook_eval distractionEffect_def callPause_def)

section \<open>Reconciliation of the local ratchet with the server\<close>

text \<open>
  C6, as stated, fails: the player has advanced to 50 seconds when the response to the
  request made at 30 seconds arrives, and \<open>maxWatched\<close> drops from 50 to 30.
\<close>

theorem late_response_overwrites:
  "maxWatched (runPlayer True \<lparr> maxWatched = 30, currentTime = 30, duration = 100, isPlaying = True \<rparr>
      [TimeUpdate 50]) = 50 \<and>
   maxWatched (runPlayer True \<lparr> maxWatched = 30, currentTime = 30, duration = 100, isPlaying = True \<rparr>
      [TimeUpdate 50,
       ProgressSaved (Some \<lparr> videoCurrentTime = 30, videoDuration = 100 \<rparr>)
         (PostOk \<lparr> watched_seconds = 30, max_watched_seconds = 30, completed = False \<rparr>)]) = 30"
  by (simp add: runPlayer_def handleTimeUpdate_def saveProgress_def)

text \<open>
  C6, amended. A response that arrives sets \<open>maxWatched\<close> to the value the server
  returned, whatever the local value is: after any interleaving of time updates and
  responses that ends with a response, \<open>maxWatched\<close> is what that response carries. A
  request that throws, or a call without a video element, leaves the player as it was.
\<close>

theorem saveProgress_server_wins:
  "maxWatched (fst (saveProgress cb (Some v) (PostOk res) p)) = max_watched_seconds res \<and>
   maxWatched (runPlayer cb p (evs @ [ProgressSaved (Some v) (PostOk res)])) = max_watched_seconds res \<and>
   fst (saveProgress cb video PostThrew p) = p \<and>
   saveProgress cb None result p = (p, [])"
  by (simp add: runPlayer_def saveProgress_def split: option.splits)

section \<open>Starting\<close>



section \<open>Stopping\<close>

text \<open>
  C8. \<open>stopTracking\<close> is idempotent. A second call in a row makes no call on any
  resource (so nothing can throw) and leaves the hook as the first call left it, so the
  interval, the detector and the camera tracks are released exactly once, by the first
  call; after any call the stream, detector, interval and video refs are empty and
  \<open>isTracking\<close> is false.
\<close>

theorem stopTracking_idempotent:
  "stopTracking (fst (stopTracking h)) = (fst (stopTracking h), []) \<and>
   snd (stopTracking h) @ snd (stopTracking (fst (stopTracking h))) =
     (case intervalRef h of None \<Rightarrow> [] | Some i \<Rightarrow> [ClearInterval i]) @
     (case detectorRef h of None \<Rightarrow> [] | Some d \<Rightarrow> [DetectorClose d]) @
     (case streamRef h of None \<Rightarrow> [] | Some s \<Rightarrow> map TrackStop s) @
     (case videoRef h of None \<Rightarrow> [] | Some v \<Rightarrow> [ClearSrcObject v]) \<and>
   streamRef (fst (stopTracking h)) = None \<and>
   detectorRef (fst (stopTracking h)) = None \<and>
   intervalRef (fst (stopTracking h)) = None \<and>
   videoRef (fst (stopTracking h)) = None \<and>
   isTracking (state (fst (stopTracking h))) = False"
  by (simp add: stopTracking_def)

section \<open>Dismissing the break suggestion\<close>

text \<open>
  C9, as stated, fails: three distraction events bring the suggestion up with three
  timestamps in the window; the dismissal empties the window, and the fourth event, eleven
  seconds later, finds a window of one and raises no suggestion.
\<close>

theorem dismiss_forgets_window:
  "eventTimestampsRef (runHook (initialHook 0)
      [Start (Started [1] 2 3 4 5),
       Tick 0 (Detections []), Tick 10000 (Detections []), Tick 10500 (Detections [0.9]),
       Tick 11000 (Detections []), Tick 21000 (Detections []), Tick 21500 (Detections [0.9]),
       Tick 22000 (Detections []), Tick 32000 (Detections [])]) = [10000, 21000, 32000] \<and>
   shouldSuggestBreak (state (runHook (initialHook 0)
      [Start (Started [1] 2 3 4 5),
       Tick 0 (Detections []), Tick 10000 (Detections []), Tick 10500 (Detections [0.9]),
       Tick 11000 (Detections []), Tick 21000 (Detections []), Tick 21500 (Detections [0.9]),
       Tick 22000 (Detections []), Tick 32000 (Detections [])])) \<and>
   eventTimestampsRef (runHook (initialHook 0)
      [Start (Started [1] 2 3 4 5),
       Tick 0 (Detections []), Tick 10000 (Detections []), Tick 10500 (Detections [0.9]),
       Tick 11000 (Detections []), Tick 21000 (Detections []), Tick 21500 (Detections [0.9]),
       Tick 22000 (Detections []), Tick 32000 (Detections []),
       Dismiss]) = [] \<and>
   eventTimestampsRef (runHook (initialHook 0)
      [Start (Started [1] 2 3 4 5),
       Tick 0 (Detections []), Tick 10000 (Detections []), Tick 10500 (Detections [0.9]),
       Tick 11000 (Detections []), Tick 21000 (Detections []), Tick 21500 (Detections [0.9]),
       Tick 22000 (Detections []), Tick 32000 (Detections []),
       Dismiss,
       Tick 32500 (Detections [0.9]), Tick 33000 (Detections []), Tick 43000 (Detections [])]) = [43000] \<and>
   \<not> shouldSuggestBreak (state (runHook (initialHook 0)
      [Start (Started [1] 2 3 4 5),
       Tick 0 (Detections []), Tick 10000 (Detections []), Tick 10500 (Detections [0.9]),
       Tick 11000 (Detections []), Tick 21000 (Detections []), Tick 21500 (Detections [0.9]),
       Tick 22000 (Detections []), Tick 32000 (Detections []),
       Dismiss,
       Tick 32500 (Detections [0.9]), Tick 33000 (Detections []), Tick 43000 (Detections [])]))"
  by (simp add: hook_eval)

text \<open>
  An event of the hook lengthens the list of timestamps by at most one, and raises the
  suggestion only with a list of at least \<open>BREAK_SUGGESTION_THRESHOLD\<close> timestamps.
\<close>

lemma window_grows_by_one:
  "length (eventTimestampsRef (hookStep h e)) \<le> Suc (length (eventTimestampsRef h))"
proof (cases e)
  case (Start out)
  then show ?thesis by (cases out) simp_all
next
  case Stop
  then show ?thesis by (simp add: stopTracking_def)
next
  case (Tick now fr)
  then show ?thesis
    by (cases fr) (auto simp: updateAttention_def Let_def le_SucI split: option.splits)
next
  case Dismiss
  then show ?thesis by (simp add: dismissBreakSuggestion_def)
next
  case Reset
  then show ?thesis by (simp add: resetStats_def)
qed

lemma suggestion_needs_window:
  assumes "\<not> shouldSuggestBreak (state h)" and "shouldSuggestBreak (state (hookStep h e))"
  shows "BREAK_SUGGESTION_THRESHOLD \<le> length (eventTimestampsRef (hookStep h e))"
proof (cases e)
  case (Start out)
  then show ?thesis using assms by (cases out) simp_all
next
  case Stop
  then show ?thesis using assms by (simp add: stopTracking_def)
next
  case (Tick now fr)
  then show ?thesis using assms
    by (cases fr) (auto simp: updateAttention_def Let_def split: option.splits if_splits)
next
  case Dismiss
  then show ?thesis using assms by (simp add: dismissBreakSuggestion_def)
next
  case Reset
  then show ?thesis using assms by (simp add: resetStats_def)
qed

text \<open>
  C9, amended. \<open>dismissBreakSuggestion\<close> clears \<open>shouldSuggestBreak\<close> and empties the
  list of event timestamps; the rest of the state, the count of distraction events
  included, and every other ref is kept. The earlier events no longer count: whatever the
  next two events of the hook are, the suggestion is not raised by them.
\<close>

theorem dismissBreakSuggestion_frame:
  "shouldSuggestBreak (state (dismissBreakSuggestion h)) = False \<and>
   eventTimestampsRef (dismissBreakSuggestion h) = [] \<and>
   distractionEvents (state (dismissBreakSuggestion h)) = distractionEvents (state h) \<and>
   state (dismissBreakSuggestion h) = (state h)\<lparr> shouldSuggestBreak := False \<rparr> \<and>
   videoRef (dismissBreakSuggestion h) = videoRef h \<and>
   canvasRef (dismissBreakSuggestion h) = canvasRef h \<and>
   detectorRef (dismissBreakSuggestion h) = detectorRef h \<and>
   streamRef (dismissBreakSuggestion h) = streamRef h \<and>
   intervalRef (dismissBreakSuggestion h) = intervalRef h \<and>
   distractionStartRef (dismissBreakSuggestion h) = distractionStartRef h \<and>
   eventTriggeredRef (dismissBreakSuggestion h) = eventTriggeredRef h \<and>
   \<not> shouldSuggestBreak (state (hookStep (dismissBreakSuggestion h) e1)) \<and>
   \<not> shouldSuggestBreak (state (hookStep (hookStep (dismissBreakSuggestion h) e1) e2))"
proof -
  let ?d = "dismissBreakSuggestion h"
  have d: "\<not> shouldSuggestBreak (state ?d)" "length (eventTimestampsRef ?d) = 0"
    by (simp_all add: dismissBreakSuggestion_def)
  have l1: "length (eventTimestampsRef (hookStep ?d e1)) \<le> 1"
    using window_grows_by_one [of ?d e1] d(2) by simp
  have s1: "\<not> shouldSuggestBreak (state (hookStep ?d e1))"
    using suggestion_needs_window [OF d(1), of e1] l1 by (auto simp: BREAK_SUGGESTION_THRESHOLD_def)
  have l2: "length (eventTimestampsRef (hookStep (hookStep ?d e1) e2)) \<le> 2"
    using window_grows_by_one [of "hookStep ?d e1" e2] l1 by simp
  have s2: "\<not> shouldSuggestBreak (state (hookStep (hookStep ?d e1) e2))"
    using suggestion_needs_window [OF s1, of e2] l2 by (auto simp: BREAK_SUGGESTION_THRESHOLD_def)
  have frame: "shouldSuggestBreak (state ?d) = False \<and>
     eventTimestampsRef ?d = [] \<and>
     distractionEvents (state ?d) = distractionEvents (state h) \<and>
     state ?d = (state h)\<lparr> shouldSuggestBreak := False \<rparr> \<and>
     videoRef ?d = videoRef h \<and> canvasRef ?d = canvasRef h \<and> detectorRef ?d = detectorRef h \<and>
     streamRef ?d = streamRef h \<and> intervalRef ?d = intervalRef h \<and>
     distractionStartRef ?d = distractionStartRef h \<and> eventTriggeredRef ?d = eventTriggeredRef h"
    by (simp add: dismissBreakSuggestion_def)
  show ?thesis using frame s1 s2 by blast
qed

section \<open>The end of the video\<close>

text \<open>
  C10. When the video ends with its element mounted and a progress callback given, and the
  request returns, \<open>handleEnded\<close> posts the duration as both the watched and the total
  seconds and calls the callback with \<open>completed\<close> true, whatever the response says, also
  when the server answered \<open>completed\<close> false; \<open>saveProgress\<close> passes the server's flag on.
\<close>

theorem handleEnded_assumes_completed:
  "handleEnded True (Some v) (PostOk res) (Some v) p =
     (p\<lparr> isPlaying := False \<rparr>,
      [ApiPost (videoDuration v) (videoDuration v), OnProgressUpdate True (videoDuration v)]) \<and>
   handleEnded True (Some v) (PostOk (res\<lparr> completed := False \<rparr>)) (Some v) p =
     handleEnded True (Some v) (PostOk (res\<lparr> completed := True \<rparr>)) (Some v) p \<and>
   snd (saveProgress True (Some v) (PostOk res) p) =
     [ApiPost (videoCurrentTime v) (videoDuration v), OnProgressUpdate (completed res) (videoCurrentTime v)]"
  by (simp add: handleEnded_def saveProgress_def)

end
